theory Spec2Isabelle
  imports Main
begin

section \<open>Python values, exceptions and worker-side computations\<close>

text \<open>
  The values that travel between the driver and the running code.  \<open>SigintHappened\<close> is
  the class object of \<^verbatim>\<open>coderunner.py\<close> that \<^verbatim>\<open>run_code\<close> sends in place of the driver's
  value; the tags the code greenlet hands back are Python strings.  A \<^verbatim>\<open>switch\<close> called with
  no argument, or with several, hands over a tuple.
\<close>

datatype pyval = PyNone | PyBool bool | PyStr string | SigintHappened | PyTuple "pyval list"

text \<open>
  The exceptions the module raises or lets through.  \<open>SystemExitFromCodeThread\<close> is
  declared as a subclass of \<open>SystemExit\<close>, so an \<^verbatim>\<open>except SystemExit\<close> clause catches both.
\<close>

datatype exn =
    KeyboardInterrupt
  | SystemExit
  | SystemExitFromCodeThread
  | AssertionError
  | ValueError pyval
  | TypeError
  | AttributeError
  | OtherException string

fun is_SystemExit :: "exn \<Rightarrow> bool" where
  "is_SystemExit SystemExit = True"
| "is_SystemExit SystemExitFromCodeThread = True"
| "is_SystemExit _ = False"

text \<open>Calls that leave the module: they are recorded in the order they happen.\<close>

datatype event =
    Runsource string
  | On_write string
  | Stuff_a_refresh_request

text \<open>
  Code that runs inside the code greenlet.  It returns, raises, hands control to the main
  greenlet with a tag (\<^verbatim>\<open>self.main_greenlet.switch(tag)\<close>) and continues with the value it is
  resumed with, calls out of the module, or is hit by a SIGINT, in which case it continues
  according to what the installed handler did (\<open>Some e\<close>: the handler raised \<open>e\<close> at this
  point; \<open>None\<close>: the handler returned).  The type is inductive: it describes code that
  hands control back after finitely many steps.
\<close>

datatype 'a co =
    Return 'a
  | Raise exn
  | Switch pyval "pyval \<Rightarrow> 'a co"
  | Effect event "'a co"
  | Sigint "exn option \<Rightarrow> 'a co"

text \<open>Sequencing: \<open>x = c; f x\<close>.\<close>

primrec co_bind :: "'a co \<Rightarrow> ('a \<Rightarrow> 'b co) \<Rightarrow> 'b co" where
  "co_bind (Return a) f = f a"
| "co_bind (Raise e) f = Raise e"
| "co_bind (Switch tag k) f = Switch tag (\<lambda>v. co_bind (k v) f)"
| "co_bind (Effect ev c) f = Effect ev (co_bind c f)"
| "co_bind (Sigint k) f = Sigint (\<lambda>r. co_bind (k r) f)"

text \<open>
  \<^verbatim>\<open>try: x = c  except: h(e)\<close> followed by \<open>f x\<close> when no exception was raised; the
  handler \<open>h\<close> decides for each exception whether it is caught.
\<close>

primrec try_except :: "'a co \<Rightarrow> (exn \<Rightarrow> 'b co) \<Rightarrow> ('a \<Rightarrow> 'b co) \<Rightarrow> 'b co" where
  "try_except (Return a) h f = f a"
| "try_except (Raise e) h f = h e"
| "try_except (Switch tag k) h f = Switch tag (\<lambda>v. try_except (k v) h f)"
| "try_except (Effect ev c) h f = Effect ev (try_except c h f)"
| "try_except (Sigint k) h f = Sigint (\<lambda>r. try_except (k r) h f)"

section \<open>The state of a CodeRunner and of the process around it\<close>

text \<open>
  A greenlet object: its identity and whether it has not started yet (with the function it
  will run), is suspended in a \<^verbatim>\<open>switch\<close> call (with the rest of its computation, waiting for
  the value it is resumed with), or has finished.
\<close>

datatype gstate =
    Unstarted "pyval co"
  | Suspended "pyval \<Rightarrow> pyval co"
  | Dead

record greenlet =
  gid :: nat
  gstate :: gstate

text \<open>
  What the process-wide SIGINT slot can hold: the bound method \<^verbatim>\<open>self.sigint_handler\<close> of
  the runner, or a handler from elsewhere, of which only its effect is known (it raises the
  given exception in the running context, or returns).
\<close>

datatype handler =
    CodeRunner_sigint_handler
  | Foreign_handler "exn option"

text \<open>
  The fields of \<^verbatim>\<open>CodeRunner\<close>, followed by what the code reads from the process:
  \<^verbatim>\<open>greenlet.getcurrent()\<close>, the SIGINT slot (\<^verbatim>\<open>signal.getsignal\<close> / \<^verbatim>\<open>signal.signal\<close>), the
  identity given to the next greenlet object, and the log of outgoing calls.  The
  interpreter \<^verbatim>\<open>self.interp\<close> is a parameter of \<open>run_code\<close>; the callback
  \<^verbatim>\<open>self.stuff_a_refresh_request\<close> is taken to return normally and is recorded in the log.
\<close>

record state =
  source :: "string option"
  main_greenlet :: nat
  code_greenlet :: "greenlet option"
  code_is_waiting :: bool
  sigint_happened :: bool
  orig_sigint_handler :: "handler option"
  getcurrent :: nat
  sigint_slot :: handler
  next_gid :: nat
  events :: "event list"

text \<open>\<^verbatim>\<open>CodeRunner.__init__\<close>, called from the main greenlet while the slot holds \<open>h\<close>.\<close>

definition init :: "handler \<Rightarrow> state" where
  "init h =
     \<lparr> source = None, main_greenlet = 0, code_greenlet = None, code_is_waiting = False,
       sigint_happened = False, orig_sigint_handler = None,
       getcurrent = 0, sigint_slot = h, next_gid = 1, events = [] \<rparr>"

section \<open>The methods of CodeRunner\<close>

text \<open>
  The property \<^verbatim>\<open>running\<close> returns \<^verbatim>\<open>self.source and self.code_greenlet\<close>: the source when the
  source is falsy (\<^verbatim>\<open>None\<close> or the empty string), the greenlet field otherwise.
\<close>

datatype running_value = Source_value "string option" | Greenlet_value "greenlet option"

fun truthy_source :: "string option \<Rightarrow> bool" where
  "truthy_source None = False"
| "truthy_source (Some src) = (src \<noteq> [])"

text \<open>A greenlet object is truthy while it is active: started and not finished.\<close>

fun truthy_greenlet :: "greenlet option \<Rightarrow> bool" where
  "truthy_greenlet None = False"
| "truthy_greenlet (Some g) = (case gstate g of Suspended k \<Rightarrow> True | _ \<Rightarrow> False)"

fun truthy :: "running_value \<Rightarrow> bool" where
  "truthy (Source_value src) = truthy_source src"
| "truthy (Greenlet_value g) = truthy_greenlet g"

definition running :: "state \<Rightarrow> running_value" where
  "running s =
     (if truthy_source (source s) then Greenlet_value (code_greenlet s)
      else Source_value (source s))"

definition load_code :: "string \<Rightarrow> state \<Rightarrow> exn + state" where
  "load_code src s =
     (if source s \<noteq> None then Inl AssertionError
      else Inr (s\<lparr>source := Some src, code_greenlet := None\<rparr>))"

definition unload_code :: "state \<Rightarrow> state" where
  "unload_code s = s\<lparr>source := None, code_greenlet := None, code_is_waiting := False\<rparr>"

text \<open>
  \<^verbatim>\<open>sigint_handler\<close>: raises in the context it runs in when that context is the code
  greenlet, and records the signal otherwise.
\<close>

definition sigint_handler :: "state \<Rightarrow> exn + state" where
  "sigint_handler s =
     (if Some (getcurrent s) = map_option gid (code_greenlet s) then Inl KeyboardInterrupt
      else Inr (s\<lparr>sigint_happened := True\<rparr>))"

text \<open>A SIGINT reaches the process: the handler in the slot runs in the current context.\<close>

definition deliver_sigint :: "state \<Rightarrow> exn + state" where
  "deliver_sigint s =
     (case sigint_slot s of
        CodeRunner_sigint_handler \<Rightarrow> sigint_handler s
      | Foreign_handler None \<Rightarrow> Inr s
      | Foreign_handler (Some e) \<Rightarrow> Inl e)"

text \<open>
  \<^verbatim>\<open>_blocking_run_code\<close>, the function the code greenlet runs: one call of
  \<^verbatim>\<open>self.interp.runsource(self.source)\<close>, whose behaviour on the source is \<open>interp src\<close>.
\<close>

definition blocking_run_code :: "(string \<Rightarrow> bool co) \<Rightarrow> string \<Rightarrow> pyval co" where
  "blocking_run_code interp src =
     Effect (Runsource src)
       (try_except (interp src)
          (\<lambda>e. if is_SystemExit e then Return (PyStr ''SystemExit'') else Raise e)
          (\<lambda>unfinished. Return (if unfinished then PyStr ''unfinished'' else PyStr ''done'')))"

definition wait_and_get_value :: "pyval co" where
  "wait_and_get_value =
     Switch (PyStr ''wait'')
       (\<lambda>v. if v = SigintHappened then Raise KeyboardInterrupt else Return v)"

definition refresh_and_get_value :: "pyval co" where
  "refresh_and_get_value =
     Switch (PyStr ''refresh'')
       (\<lambda>v. if v = SigintHappened then Raise KeyboardInterrupt else Return v)"

text \<open>
  The code greenlet stops running: it is left dead or suspended, and the main greenlet is
  current again.
\<close>

definition leave :: "gstate \<Rightarrow> state \<Rightarrow> state" where
  "leave st s =
     s\<lparr>code_greenlet := map_option (\<lambda>g. g\<lparr>gstate := st\<rparr>) (code_greenlet s),
       getcurrent := main_greenlet s\<rparr>"

text \<open>
  The code greenlet runs until control is back in the main greenlet: what the pending
  \<^verbatim>\<open>switch\<close> call of \<open>run_code\<close> returns or raises, and the state then.  A greenlet that
  returns hands its result to its parent; one that raises hands the exception on.
\<close>

primrec resume :: "pyval co \<Rightarrow> state \<Rightarrow> (exn + pyval) \<times> state" where
  "resume (Return v) s = (Inr v, leave Dead s)"
| "resume (Raise e) s = (Inl e, leave Dead s)"
| "resume (Switch tag k) s = (Inr tag, leave (Suspended k) s)"
| "resume (Effect ev c) s = resume c (s\<lparr>events := events s @ [ev]\<rparr>)"
| "resume (Sigint k) s =
     (case deliver_sigint s of
        Inl e \<Rightarrow> resume (k (Some e)) s
      | Inr s' \<Rightarrow> resume (k None) s')"

text \<open>
  \<^verbatim>\<open>self.code_greenlet.switch(v)\<close> called in the main greenlet.  Switching to a finished
  greenlet comes straight back with the value sent.
\<close>

definition switch :: "pyval \<Rightarrow> state \<Rightarrow> (exn + pyval) \<times> state" where
  "switch v s =
     (case code_greenlet s of
        None \<Rightarrow> (Inl AttributeError, s)
      | Some g \<Rightarrow>
          (case gstate g of
             Unstarted body \<Rightarrow> resume body (s\<lparr>getcurrent := gid g\<rparr>)
           | Suspended k \<Rightarrow> resume (k v) (s\<lparr>getcurrent := gid g\<rparr>)
           | Dead \<Rightarrow> (Inr v, s)))"

text \<open>
  \<^verbatim>\<open>run_code\<close>, lines 86 to 100: start the code greenlet, or resume it with the driver's
  value or with \<open>SigintHappened\<close>.  The result is the \<open>request\<close> of the source, or the
  exception that ends \<open>run_code\<close> there.
\<close>

definition switch_to_code :: "(string \<Rightarrow> bool co) \<Rightarrow> state \<Rightarrow> pyval \<Rightarrow> (exn + pyval) \<times> state" where
  "switch_to_code interp s for_code =
     (if code_greenlet s = None then
        (case source s of
           None \<Rightarrow> (Inl AssertionError, s)
         | Some src \<Rightarrow>
             let s1 = s\<lparr>code_greenlet :=
                         Some \<lparr>gid = next_gid s, gstate = Unstarted (blocking_run_code interp src)\<rparr>,
                       next_gid := Suc (next_gid s)\<rparr>;
                 s2 = s1\<lparr>orig_sigint_handler := Some (sigint_slot s1)\<rparr>;
                 s3 = s2\<lparr>sigint_slot := CodeRunner_sigint_handler\<rparr>
             in switch PyNone s3)
      else if \<not> code_is_waiting s then (Inl AssertionError, s)
      else
        let s1 = s\<lparr>code_is_waiting := False\<rparr>;
            s2 = s1\<lparr>sigint_slot := CodeRunner_sigint_handler\<rparr>
        in if sigint_happened s2 then switch SigintHappened (s2\<lparr>sigint_happened := False\<rparr>)
           else switch for_code s2)"

text \<open>
  Line 116, \<^verbatim>\<open>raise ValueError("Not a valid value from code greenlet: %r" % request)\<close>.  The
  message is formatted first, and \<^verbatim>\<open>%\<close> takes a tuple on its right as the list of arguments:
  a tuple of one element is formatted as that element, and any other tuple does not fit the
  one \<^verbatim>\<open>%r\<close>, so that the formatting raises \<open>TypeError\<close> and no \<open>ValueError\<close> is built.  The
  \<open>ValueError\<close> carries the value its message shows.
\<close>

fun not_a_valid_value :: "pyval \<Rightarrow> exn" where
  "not_a_valid_value (PyTuple [x]) = ValueError x"
| "not_a_valid_value (PyTuple xs) = TypeError"
| "not_a_valid_value request = ValueError request"

text \<open>\<^verbatim>\<open>run_code\<close>, lines 102 to 116: what the driver gets for a request.\<close>

definition handle_request :: "pyval \<Rightarrow> state \<Rightarrow> (exn + pyval) \<times> state" where
  "handle_request request s =
     (if request \<in> set [PyStr ''wait'', PyStr ''refresh''] then
        let s1 = s\<lparr>code_is_waiting := True\<rparr>;
            s2 = (if request = PyStr ''refresh''
                  then s1\<lparr>events := events s1 @ [Stuff_a_refresh_request]\<rparr> else s1)
        in (Inr (PyBool False), s2)
      else if request \<in> set [PyStr ''done'', PyStr ''unfinished''] then
        let s1 = unload_code s
        in (case orig_sigint_handler s1 of
              None \<Rightarrow> (Inl TypeError, s1)
            | Some h \<Rightarrow> (Inr request, s1\<lparr>sigint_slot := h, orig_sigint_handler := None\<rparr>))
      else if request \<in> set [PyStr ''SystemExit''] then
        (Inl SystemExitFromCodeThread, unload_code s)
      else (Inl (not_a_valid_value request), s))"

definition run_code :: "(string \<Rightarrow> bool co) \<Rightarrow> state \<Rightarrow> pyval \<Rightarrow> (exn + pyval) \<times> state" where
  "run_code interp s for_code =
     (case switch_to_code interp s for_code of
        (Inl e, s') \<Rightarrow> (Inl e, s')
      | (Inr request, s') \<Rightarrow> handle_request request s')"

section \<open>FakeOutput\<close>

text \<open>
  The sink \<^verbatim>\<open>on_write\<close> is any callable; it runs in the code greenlet.  The methods do
  not read the runner apart from \<^verbatim>\<open>refresh_and_get_value\<close>.
\<close>

record fake_output =
  on_write :: "string \<Rightarrow> pyval co"

definition fo_write :: "fake_output \<Rightarrow> string \<Rightarrow> pyval co" where
  "fo_write fo data = co_bind (on_write fo data) (\<lambda>_. refresh_and_get_value)"

primrec writelines :: "fake_output \<Rightarrow> string list \<Rightarrow> pyval co" where
  "writelines fo [] = Return PyNone"
| "writelines fo (x # l) = co_bind (fo_write fo x) (\<lambda>_. writelines fo l)"

definition flush :: "fake_output \<Rightarrow> pyval co" where
  "flush fo = Return PyNone"

definition isatty :: "fake_output \<Rightarrow> pyval co" where
  "isatty fo = Return (PyBool True)"

section \<open>Executions\<close>

text \<open>
  One execution of worker-side code, followed to its end: what it is resumed with at each
  \<^verbatim>\<open>switch\<close> and what the handler did at each SIGINT is given, in order; the result is what
  the code did on the way (outgoing calls and the tags it suspended with) and how it ended.
  \<open>None\<close>: the given stimuli do not fit the code or do not lead to its end.
\<close>

datatype stimulus = Resumed pyval | Signalled "exn option"

datatype obs = Called event | Yielded pyval

primrec run_path :: "'a co \<Rightarrow> stimulus list \<Rightarrow> (obs list \<times> (exn + 'a)) option" where
  "run_path (Return a) xs = (if xs = [] then Some ([], Inr a) else None)"
| "run_path (Raise e) xs = (if xs = [] then Some ([], Inl e) else None)"
| "run_path (Switch tag k) xs =
     (case xs of
        Resumed v # xs' \<Rightarrow> map_option (\<lambda>(tr, r). (Yielded tag # tr, r)) (run_path (k v) xs')
      | _ \<Rightarrow> None)"
| "run_path (Effect ev c) xs = map_option (\<lambda>(tr, r). (Called ev # tr, r)) (run_path c xs)"
| "run_path (Sigint k) xs =
     (case xs of
        Signalled r # xs' \<Rightarrow> run_path (k r) xs'
      | _ \<Rightarrow> None)"

text \<open>
  The states a runner can be in between two calls of the driver: after \<^verbatim>\<open>__init__\<close>, after
  \<^verbatim>\<open>load_code\<close> or \<^verbatim>\<open>run_code\<close> (however it ended), and after a SIGINT that arrived while the
  driver had control.
\<close>

inductive reachable :: "state \<Rightarrow> bool" where
  reachable_init: "reachable (init h)"
| reachable_load: "reachable s \<Longrightarrow> load_code src s = Inr s' \<Longrightarrow> reachable s'"
| reachable_run: "reachable s \<Longrightarrow> run_code interp s v = (r, s') \<Longrightarrow> reachable s'"
| reachable_sigint: "reachable s \<Longrightarrow> deliver_sigint s = Inr s' \<Longrightarrow> reachable s'"

definition invar :: "state \<Rightarrow> bool" where
  "invar s \<longleftrightarrow>
     (source s = None \<longrightarrow> code_greenlet s = None \<and> \<not> code_is_waiting s) \<and>
     (code_greenlet s \<noteq> None \<longrightarrow> orig_sigint_handler s \<noteq> None) \<and>
     getcurrent s = main_greenlet s \<and>
     (\<forall>g. code_greenlet s = Some g \<longrightarrow> gid g \<noteq> main_greenlet s) \<and>
     main_greenlet s < next_gid s"

section \<open>Scenarios\<close>

text \<open>
  The set-up of \<^verbatim>\<open>test_simple\<close> at the end of the module: the slot holds Python's default
  handler, which raises \<open>KeyboardInterrupt\<close>; the runner is created and a source is loaded;
  \<^verbatim>\<open>sys.stdout\<close> is a \<open>FakeOutput\<close> whose sink writes to the terminal.
\<close>

definition default_int_handler :: handler where
  "default_int_handler = Foreign_handler (Some KeyboardInterrupt)"

definition loaded :: "string \<Rightarrow> state" where
  "loaded src = (init default_int_handler)\<lparr>source := Some src\<rparr>"

definition stdout :: fake_output where
  "stdout = \<lparr>on_write = (\<lambda>data. Effect (On_write data) (Return PyNone))\<rparr>"

text \<open>
  Interpreters, by what they do with the source: one that prints a result in two writes
  (the text, then the newline) as for \<^verbatim>\<open>1 + 1\<close>; one that runs a statement without output;
  one whose code asks for input and echoes it to the terminal; one whose code exits; one
  whose code switches to the main greenlet by hand with a tag of its own; and one that is
  hit by a SIGINT while it runs.  As \<^verbatim>\<open>code.InteractiveInterpreter\<close> does, the ones that can
  see an exception other than \<open>SystemExit\<close> catch it, report it on the terminal and return.
\<close>

definition prints_result :: "string \<Rightarrow> bool co" where
  "prints_result src =
     co_bind (fo_write stdout ''2'') (\<lambda>_. co_bind (fo_write stdout [CHR 0x0A]) (\<lambda>_. Return False))"

definition runs_quietly :: "string \<Rightarrow> bool co" where
  "runs_quietly src = Return False"

definition showtraceback :: "exn \<Rightarrow> bool co" where
  "showtraceback e =
     (if is_SystemExit e then Raise e
      else Effect (On_write (case e of KeyboardInterrupt \<Rightarrow> ''KeyboardInterrupt'' | _ \<Rightarrow> ''Traceback''))
             (Return False))"

definition asks_input :: "string \<Rightarrow> bool co" where
  "asks_input src =
     try_except wait_and_get_value showtraceback
       (\<lambda>v. Effect (On_write (case v of PyStr x \<Rightarrow> x | _ \<Rightarrow> ''None'')) (Return False))"

definition exits :: "string \<Rightarrow> bool co" where
  "exits src = Raise SystemExit"

definition switches_by_hand :: "string \<Rightarrow> bool co" where
  "switches_by_hand src = Switch (PyStr ''bogus'') (\<lambda>_. Return False)"

text \<open>Code that calls \<^verbatim>\<open>switch()\<close> on the main greenlet with no argument.\<close>

definition switches_without_value :: "string \<Rightarrow> bool co" where
  "switches_without_value src = Switch (PyTuple []) (\<lambda>_. Return False)"

definition interrupted :: "string \<Rightarrow> bool co" where
  "interrupted src = Sigint (\<lambda>r. case r of Some e \<Rightarrow> showtraceback e | None \<Rightarrow> Return False)"

text \<open>
  The runner after the first \<open>run_code\<close> on code that asks for input: the code greenlet
  is suspended in \<open>wait_and_get_value\<close> and the driver has control.
\<close>

definition waiting_for_input :: state where
  "waiting_for_input = snd (run_code asks_input (loaded ''raw_input()'') PyNone)"

section \<open>Facts about the operations\<close>

subsection \<open>What running the code greenlet leaves unchanged\<close>

lemma deliver_sigint_Inr:
  "deliver_sigint s = Inr s' \<Longrightarrow> s' = s \<or> s' = s\<lparr>sigint_happened := True\<rparr>"
  by (auto simp: deliver_sigint_def sigint_handler_def split: handler.splits option.splits if_splits)

lemma resume_frame:
  "\<exists>st evs flag. snd (resume c s) = leave st (s\<lparr>events := events s @ evs, sigint_happened := flag\<rparr>)"
proof (induction c arbitrary: s)
  case (Return v)
  show ?case
    by (rule exI[of _ Dead], rule exI[of _ "[]"], rule exI[of _ "sigint_happened s"]) simp
next
  case (Raise e)
  show ?case
    by (rule exI[of _ Dead], rule exI[of _ "[]"], rule exI[of _ "sigint_happened s"]) simp
next
  case (Switch tag k)
  show ?case
    by (rule exI[of _ "Suspended k"], rule exI[of _ "[]"], rule exI[of _ "sigint_happened s"]) simp
next
  case (Effect ev c)
  from Effect.IH[of "s\<lparr>events := events s @ [ev]\<rparr>"]
  obtain st evs flag where
    "snd (resume c (s\<lparr>events := events s @ [ev]\<rparr>)) =
       leave st (s\<lparr>events := events s @ [ev]\<rparr>\<lparr>events := events (s\<lparr>events := events s @ [ev]\<rparr>) @ evs, sigint_happened := flag\<rparr>)"
    by blast
  then show ?case
    by (intro exI[of _ st] exI[of _ "ev # evs"] exI[of _ flag]) simp
next
  case (Sigint k)
  show ?case
  proof (cases "deliver_sigint s")
    case (Inl e)
    with Sigint.IH[of "k (Some e)" s] show ?thesis by simp
  next
    case (Inr s')
    from deliver_sigint_Inr[OF Inr] have "s' = s \<or> s' = s\<lparr>sigint_happened := True\<rparr>" .
    then show ?thesis
    proof
      assume "s' = s"
      with Inr Sigint.IH[of "k None" s] show ?thesis by simp
    next
      assume s': "s' = s\<lparr>sigint_happened := True\<rparr>"
      from Sigint.IH[of "k None" s'] obtain st evs flag where
        "snd (resume (k None) s') = leave st (s'\<lparr>events := events s' @ evs, sigint_happened := flag\<rparr>)"
        by blast
      with Inr s' show ?thesis
        by (intro exI[of _ st] exI[of _ evs] exI[of _ flag]) simp
    qed
  qed
qed

lemma resume_fields:
  "source (snd (resume c s)) = source s"
  "code_is_waiting (snd (resume c s)) = code_is_waiting s"
  "orig_sigint_handler (snd (resume c s)) = orig_sigint_handler s"
  "main_greenlet (snd (resume c s)) = main_greenlet s"
  "next_gid (snd (resume c s)) = next_gid s"
  "sigint_slot (snd (resume c s)) = sigint_slot s"
  "getcurrent (snd (resume c s)) = main_greenlet s"
  "map_option gid (code_greenlet (snd (resume c s))) = map_option gid (code_greenlet s)"
  using resume_frame[of c s] by (auto simp: leave_def option.map_comp comp_def)

lemma resume_greenlet_None:
  "code_greenlet (snd (resume c s)) = None \<longleftrightarrow> code_greenlet s = None"
  using resume_fields(8)[of c s] by (metis option.map_disc_iff)

lemma switch_fields:
  "source (snd (switch v s)) = source s"
  "code_is_waiting (snd (switch v s)) = code_is_waiting s"
  "orig_sigint_handler (snd (switch v s)) = orig_sigint_handler s"
  "main_greenlet (snd (switch v s)) = main_greenlet s"
  "next_gid (snd (switch v s)) = next_gid s"
  "sigint_slot (snd (switch v s)) = sigint_slot s"
  by (simp_all add: switch_def resume_fields split: option.splits gstate.splits)

lemma switch_gid:
  "map_option gid (code_greenlet (snd (switch v s))) = map_option gid (code_greenlet s)"
proof (cases "code_greenlet s")
  case None
  then show ?thesis by (simp add: switch_def)
next
  case (Some g)
  then show ?thesis
    by (cases "gstate g") (simp_all add: switch_def resume_fields(8))
qed

lemma switch_getcurrent:
  "getcurrent s = main_greenlet s \<Longrightarrow> getcurrent (snd (switch v s)) = main_greenlet s"
  by (simp add: switch_def resume_fields split: option.splits gstate.splits)

lemma switch_greenlet_None:
  "code_greenlet (snd (switch v s)) = None \<longleftrightarrow> code_greenlet s = None"
  using switch_gid[of v s] by (metis option.map_disc_iff)

lemma invar_init: "invar (init h)"
  by (simp add: invar_def init_def)

lemma invar_load_code: "invar s \<Longrightarrow> load_code src s = Inr s' \<Longrightarrow> invar s'"
  by (auto simp: invar_def load_code_def split: if_splits)

lemma invar_deliver_sigint: "invar s \<Longrightarrow> deliver_sigint s = Inr s' \<Longrightarrow> invar s'"
  by (drule deliver_sigint_Inr) (auto simp: invar_def)

lemma invar_switch:
  assumes "invar s" "source s \<noteq> None"
  shows "invar (snd (switch v s))"
proof -
  let ?s' = "snd (switch v s)"
  have gid: "gid g \<noteq> main_greenlet s" if "code_greenlet ?s' = Some g" for g
  proof -
    from that switch_gid[of v s] obtain g' where "code_greenlet s = Some g'" "gid g' = gid g"
      by (cases "code_greenlet s") auto
    with assms(1) show ?thesis by (simp add: invar_def)
  qed
  have 1: "source ?s' \<noteq> None" using assms(2) by (simp add: switch_fields)
  have 2: "code_greenlet ?s' \<noteq> None \<longrightarrow> orig_sigint_handler ?s' \<noteq> None"
    using assms(1) by (simp add: switch_fields switch_greenlet_None invar_def)
  have 3: "getcurrent ?s' = main_greenlet ?s'"
    using assms(1) by (simp add: switch_fields switch_getcurrent invar_def)
  have 4: "main_greenlet ?s' < next_gid ?s'"
    using assms(1) by (simp add: switch_fields invar_def)
  from 1 2 3 4 gid show ?thesis
    unfolding invar_def by (auto simp: switch_fields(4))
qed

lemma invar_switch_to_code:
  assumes "invar s"
  shows "invar (snd (switch_to_code interp s v))"
proof (cases "code_greenlet s")
  case None
  show ?thesis
  proof (cases "source s")
    case src: None
    with None assms show ?thesis by (simp add: switch_to_code_def)
  next
    case (Some src)
    let ?s3 = "s\<lparr>code_greenlet :=
                   Some \<lparr>gid = next_gid s, gstate = Unstarted (blocking_run_code interp src)\<rparr>,
                 next_gid := Suc (next_gid s),
                 orig_sigint_handler := Some (sigint_slot s),
                 sigint_slot := CodeRunner_sigint_handler\<rparr>"
    from assms Some have "invar ?s3" by (auto simp: invar_def)
    moreover have "source ?s3 \<noteq> None" using Some by simp
    ultimately have "invar (snd (switch PyNone ?s3))" by (rule invar_switch)
    with None Some show ?thesis by (simp add: switch_to_code_def Let_def)
  qed
next
  case (Some g)
  with assms have src: "source s \<noteq> None" by (auto simp: invar_def)
  show ?thesis
  proof (cases "code_is_waiting s")
    case False
    with Some assms show ?thesis by (simp add: switch_to_code_def)
  next
    case True
    have 1: "invar (s\<lparr>code_is_waiting := False, sigint_slot := CodeRunner_sigint_handler\<rparr>)"
      using assms src by (auto simp: invar_def)
    have 2: "invar (s\<lparr>code_is_waiting := False, sigint_slot := CodeRunner_sigint_handler, sigint_happened := False\<rparr>)"
      using assms src by (auto simp: invar_def)
    from invar_switch[OF 1, of v] invar_switch[OF 2, of SigintHappened] src True Some
    show ?thesis by (simp add: switch_to_code_def Let_def)
  qed
qed

lemma handle_request_wait:
  "handle_request (PyStr ''wait'') s = (Inr (PyBool False), s\<lparr>code_is_waiting := True\<rparr>)"
  by (simp add: handle_request_def)

lemma handle_request_refresh:
  "handle_request (PyStr ''refresh'') s =
     (Inr (PyBool False),
      s\<lparr>code_is_waiting := True, events := events s @ [Stuff_a_refresh_request]\<rparr>)"
  by (simp add: handle_request_def)

lemma handle_request_done:
  "handle_request (PyStr ''done'') s =
     (case orig_sigint_handler s of
        None \<Rightarrow> (Inl TypeError, unload_code s)
      | Some h \<Rightarrow> (Inr (PyStr ''done''), (unload_code s)\<lparr>sigint_slot := h, orig_sigint_handler := None\<rparr>))"
  by (simp add: handle_request_def unload_code_def split: option.splits)

lemma handle_request_unfinished:
  "handle_request (PyStr ''unfinished'') s =
     (case orig_sigint_handler s of
        None \<Rightarrow> (Inl TypeError, unload_code s)
      | Some h \<Rightarrow> (Inr (PyStr ''unfinished''), (unload_code s)\<lparr>sigint_slot := h, orig_sigint_handler := None\<rparr>))"
  by (simp add: handle_request_def unload_code_def split: option.splits)

lemma handle_request_SystemExit:
  "handle_request (PyStr ''SystemExit'') s = (Inl SystemExitFromCodeThread, unload_code s)"
  by (simp add: handle_request_def)

lemma handle_request_other:
  "request \<notin> {PyStr ''wait'', PyStr ''refresh'', PyStr ''done'', PyStr ''unfinished'',
      PyStr ''SystemExit''} \<Longrightarrow>
   handle_request request s = (Inl (not_a_valid_value request), s)"
  by (simp add: handle_request_def)

lemma invar_unload_code: "invar s \<Longrightarrow> invar (unload_code s)"
  by (simp add: invar_def unload_code_def)

lemma switch_to_code_source:
  assumes "invar s" "fst (switch_to_code interp s v) = Inr request"
  shows "source (snd (switch_to_code interp s v)) \<noteq> None"
proof (cases "code_greenlet s")
  case None
  with assms(2) show ?thesis
    by (cases "source s") (simp_all add: switch_to_code_def Let_def switch_fields)
next
  case (Some g)
  with assms(1) have "source s \<noteq> None" by (auto simp: invar_def)
  with Some assms(2) show ?thesis
    by (cases "code_is_waiting s") (simp_all add: switch_to_code_def Let_def switch_fields)
qed

lemma invar_handle_request:
  assumes "invar s" "source s \<noteq> None"
  shows "invar (snd (handle_request request s))"
proof -
  consider "request = PyStr ''wait''" | "request = PyStr ''refresh''"
    | "request = PyStr ''done''" | "request = PyStr ''unfinished''"
    | "request = PyStr ''SystemExit''"
    | "request \<notin> {PyStr ''wait'', PyStr ''refresh'', PyStr ''done'', PyStr ''unfinished'',
         PyStr ''SystemExit''}"
    by blast
  then show ?thesis
  proof cases
    case 1
    with assms show ?thesis by (auto simp: handle_request_wait invar_def)
  next
    case 2
    with assms show ?thesis by (auto simp: handle_request_refresh invar_def)
  next
    case 3
    with assms show ?thesis
      by (cases "orig_sigint_handler s")
        (simp_all add: handle_request_done invar_def unload_code_def)
  next
    case 4
    with assms show ?thesis
      by (cases "orig_sigint_handler s")
        (simp_all add: handle_request_unfinished invar_def unload_code_def)
  next
    case 5
    with assms show ?thesis by (simp add: handle_request_SystemExit invar_unload_code)
  next
    case 6
    from handle_request_other[OF 6, of s] assms(1) show ?thesis by simp
  qed
qed

lemma invar_run_code: "invar s \<Longrightarrow> invar (snd (run_code interp s v))"
proof -
  assume inv: "invar s"
  obtain r s' where sw: "switch_to_code interp s v = (r, s')" by (cases "switch_to_code interp s v")
  with invar_switch_to_code[OF inv, of interp v] have inv': "invar s'" by simp
  show ?thesis
  proof (cases r)
    case (Inl e)
    with sw inv' show ?thesis by (simp add: run_code_def)
  next
    case (Inr request)
    with sw switch_to_code_source[OF inv, of interp v request] have "source s' \<noteq> None" by simp
    with inv' have "invar (snd (handle_request request s'))" by (rule invar_handle_request)
    with sw Inr show ?thesis by (simp add: run_code_def)
  qed
qed

lemma reachable_invar: "reachable s \<Longrightarrow> invar s"
proof (induction rule: reachable.induct)
  case (reachable_run s interp v r s')
  with invar_run_code[of s interp v] show ?case by simp
qed (auto intro: invar_init invar_load_code invar_deliver_sigint)

subsection \<open>The two halves of \<open>run_code\<close>\<close>

lemma switch_to_code_greenlet:
  assumes "fst (switch_to_code interp s v) = Inr request"
  shows "code_greenlet (snd (switch_to_code interp s v)) \<noteq> None"
proof (cases "code_greenlet s")
  case None
  with assms show ?thesis
    by (cases "source s") (simp_all add: switch_to_code_def Let_def switch_greenlet_None del: not_None_eq)
next
  case (Some g)
  with assms show ?thesis
    by (cases "code_is_waiting s") (simp_all add: switch_to_code_def Let_def switch_greenlet_None del: not_None_eq)
qed

lemma switch_to_code_orig:
  "orig_sigint_handler (snd (switch_to_code interp s v)) =
     (if code_greenlet s = None \<and> source s \<noteq> None then Some (sigint_slot s)
      else orig_sigint_handler s)"
proof (cases "code_greenlet s")
  case None
  then show ?thesis
    by (cases "source s") (simp_all add: switch_to_code_def Let_def switch_fields)
next
  case (Some g)
  then show ?thesis
    by (cases "code_is_waiting s") (simp_all add: switch_to_code_def Let_def switch_fields)
qed

lemma run_code_Inr:
  "switch_to_code interp s v = (Inr request, s') \<Longrightarrow>
   run_code interp s v = handle_request request s'"
  by (simp add: run_code_def)

lemma run_code_Inl:
  "switch_to_code interp s v = (Inl e, s') \<Longrightarrow> run_code interp s v = (Inl e, s')"
  by (simp add: run_code_def)

section \<open>The claims\<close>

subsection \<open>C6: loading code\<close>

text \<open>
  Claim C6.  In every state the driver can find the runner in, \<open>load_code\<close> fails with
  the assertion error whenever a source is loaded or a code greenlet exists.  When neither
  is the case it succeeds, the new state holds the source, has no code greenlet and is not
  waiting, and a second \<open>load_code\<close> on it fails.  The source tests only
  \<^verbatim>\<open>self.source is None\<close>; that a greenlet exists only while a source is loaded, and that the
  runner is not waiting while none is, holds in every reachable state.
\<close>

theorem load_code_reentry:
  assumes "reachable s"
  shows "(source s \<noteq> None \<or> code_greenlet s \<noteq> None \<longrightarrow>
            load_code src s = Inl AssertionError) \<and>
         (source s = None \<and> code_greenlet s = None \<longrightarrow>
            (\<exists>s'. load_code src s = Inr s' \<and> source s' = Some src \<and>
                  code_greenlet s' = None \<and> \<not> code_is_waiting s' \<and>
                  load_code src' s' = Inl AssertionError))"
proof -
  from assms have inv: "invar s" by (rule reachable_invar)
  have "load_code src s = Inl AssertionError" if "source s \<noteq> None \<or> code_greenlet s \<noteq> None"
  proof -
    from that inv have "source s \<noteq> None" by (auto simp: invar_def)
    then show ?thesis by (simp add: load_code_def)
  qed
  moreover have "\<exists>s'. load_code src s = Inr s' \<and> source s' = Some src \<and>
      code_greenlet s' = None \<and> \<not> code_is_waiting s' \<and> load_code src' s' = Inl AssertionError"
    if "source s = None \<and> code_greenlet s = None"
  proof -
    from that inv have "\<not> code_is_waiting s" by (simp add: invar_def)
    with that show ?thesis by (simp add: load_code_def)
  qed
  ultimately show ?thesis by blast
qed

theorem load_code_reentry_witness:
  "reachable (init (Foreign_handler None)) \<and>
   load_code ''1 + 1'' (init (Foreign_handler None)) =
     Inr ((init (Foreign_handler None))\<lparr>source := Some ''1 + 1''\<rparr>) \<and>
   reachable ((init (Foreign_handler None))\<lparr>source := Some ''1 + 1''\<rparr>) \<and>
   load_code ''2'' ((init (Foreign_handler None))\<lparr>source := Some ''1 + 1''\<rparr>) =
     Inl AssertionError"
proof -
  let ?s0 = "init (Foreign_handler None)"
  let ?s1 = "?s0\<lparr>source := Some ''1 + 1''\<rparr>"
  have r0: "reachable ?s0" by (rule reachable_init)
  have l0: "load_code ''1 + 1'' ?s0 = Inr ?s1" by (simp add: load_code_def init_def)
  from r0 l0 have r1: "reachable ?s1" by (rule reachable_load)
  have "source ?s1 \<noteq> None \<or> code_greenlet ?s1 \<noteq> None" by simp
  with load_code_reentry[OF r1, of "''2''"] have "load_code ''2'' ?s1 = Inl AssertionError"
    by blast
  moreover have "source ?s0 = None \<and> code_greenlet ?s0 = None" by (simp add: init_def)
  with load_code_reentry[OF r0, of "''1 + 1''" "''2''"]
  have "\<exists>s'. load_code ''1 + 1'' ?s0 = Inr s'" by blast
  ultimately show ?thesis using r0 r1 l0 by simp
qed

lemmas scenario_defs = loaded_def init_def default_int_handler_def stdout_def prints_result_def
  showtraceback_def runs_quietly_def asks_input_def exits_def switches_by_hand_def interrupted_def
  waiting_for_input_def switches_without_value_def

lemmas op_defs = run_code_def switch_to_code_def switch_def handle_request_def leave_def
  blocking_run_code_def unload_code_def deliver_sigint_def sigint_handler_def
  fo_write_def refresh_and_get_value_def wait_and_get_value_def Let_def

lemma reachable_loaded: "reachable (loaded src)"
proof -
  have "load_code src (init default_int_handler) = Inr (loaded src)"
    by (simp add: load_code_def loaded_def init_def)
  with reachable_init[of default_int_handler] show ?thesis by (rule reachable_load)
qed

subsection \<open>C8: the code asks for input or for a refresh\<close>

text \<open>
  Claim C8.  Whenever the code greenlet hands back the tag \<open>wait\<close> or \<open>refresh\<close>,
  \<open>run_code\<close> returns \<open>False\<close>; the state is the one the greenlet left, with
  \<open>code_is_waiting\<close> set, and the callback \<open>stuff_a_refresh_request\<close> has been called once
  more exactly when the tag is \<open>refresh\<close>.
\<close>

theorem run_code_suspends:
  assumes "switch_to_code interp s v = (Inr request, s')"
    and "request = PyStr ''wait'' \<or> request = PyStr ''refresh''"
  shows "run_code interp s v =
           (Inr (PyBool False),
            s'\<lparr>code_is_waiting := True,
               events := events s' @
                 (if request = PyStr ''refresh'' then [Stuff_a_refresh_request] else [])\<rparr>)"
  using assms(2)
proof
  assume "request = PyStr ''wait''"
  with run_code_Inr[OF assms(1)] show ?thesis by (simp add: handle_request_wait)
next
  assume "request = PyStr ''refresh''"
  with run_code_Inr[OF assms(1)] show ?thesis by (simp add: handle_request_refresh)
qed

theorem run_code_suspends_witness:
  "fst (run_code prints_result (loaded ''1 + 1'') PyNone) = Inr (PyBool False) \<and>
   code_is_waiting (snd (run_code prints_result (loaded ''1 + 1'') PyNone)) \<and>
   events (snd (run_code prints_result (loaded ''1 + 1'') PyNone)) =
     [Runsource ''1 + 1'', On_write ''2'', Stuff_a_refresh_request] \<and>
   fst (run_code asks_input (loaded ''raw_input()'') PyNone) = Inr (PyBool False) \<and>
   code_is_waiting (snd (run_code asks_input (loaded ''raw_input()'') PyNone)) \<and>
   events (snd (run_code asks_input (loaded ''raw_input()'') PyNone)) =
     [Runsource ''raw_input()'']"
proof -
  obtain r s' where sw: "switch_to_code prints_result (loaded ''1 + 1'') PyNone = (r, s')"
    by (cases "switch_to_code prints_result (loaded ''1 + 1'') PyNone")
  have "fst (switch_to_code prints_result (loaded ''1 + 1'') PyNone) = Inr (PyStr ''refresh'')"
    by (simp add: scenario_defs op_defs)
  with sw have r: "r = Inr (PyStr ''refresh'')" by simp
  have "events (snd (switch_to_code prints_result (loaded ''1 + 1'') PyNone)) =
          [Runsource ''1 + 1'', On_write ''2'']"
    by (simp add: scenario_defs op_defs)
  with sw have ev: "events s' = [Runsource ''1 + 1'', On_write ''2'']" by simp
  obtain q t' where sw2: "switch_to_code asks_input (loaded ''raw_input()'') PyNone = (q, t')"
    by (cases "switch_to_code asks_input (loaded ''raw_input()'') PyNone")
  have "fst (switch_to_code asks_input (loaded ''raw_input()'') PyNone) = Inr (PyStr ''wait'')"
    by (simp add: scenario_defs op_defs)
  with sw2 have q: "q = Inr (PyStr ''wait'')" by simp
  have "events (snd (switch_to_code asks_input (loaded ''raw_input()'') PyNone)) =
          [Runsource ''raw_input()'']"
    by (simp add: scenario_defs op_defs)
  with sw2 have ev2: "events t' = [Runsource ''raw_input()'']" by simp
  from run_code_suspends[OF sw[unfolded r]] run_code_suspends[OF sw2[unfolded q]] ev ev2
  show ?thesis by simp
qed

subsection \<open>C5: the code finishes\<close>

text \<open>
  Claim C5.  When the code greenlet hands back \<open>done\<close> or \<open>unfinished\<close>, \<open>run_code\<close>
  returns that tag; the source and the code greenlet are gone, \<open>code_is_waiting\<close> is
  cleared, the SIGINT slot holds the handler saved when the greenlet was created (the one
  that was in the slot before the first \<open>run_code\<close>), and the saved handler is forgotten.
\<close>

theorem run_code_finished:
  assumes "reachable s"
    and "switch_to_code interp s v = (Inr request, s')"
    and "request = PyStr ''done'' \<or> request = PyStr ''unfinished''"
  shows "\<exists>h. orig_sigint_handler s' = Some h \<and>
           run_code interp s v =
             (Inr request,
              s'\<lparr>source := None, code_greenlet := None, code_is_waiting := False,
                 sigint_slot := h, orig_sigint_handler := None\<rparr>) \<and>
           (if code_greenlet s = None then h = sigint_slot s
            else orig_sigint_handler s = Some h)"
proof -
  from assms(1) have inv: "invar s" by (rule reachable_invar)
  from invar_switch_to_code[OF inv, of interp v] assms(2) have inv': "invar s'" by simp
  from switch_to_code_greenlet[of interp s v request] assms(2)
  have g: "code_greenlet s' \<noteq> None" by simp
  with inv' obtain h where h: "orig_sigint_handler s' = Some h" by (auto simp: invar_def)
  from switch_to_code_source[OF inv, of interp v request] assms(2)
  have src: "source s' \<noteq> None" by simp
  have orig: "if code_greenlet s = None then h = sigint_slot s else orig_sigint_handler s = Some h"
  proof (cases "code_greenlet s")
    case None
    have "source s \<noteq> None"
    proof
      assume "source s = None"
      with None assms(2) show False by (simp add: switch_to_code_def)
    qed
    with None h switch_to_code_orig[of interp s v] assms(2) show ?thesis by simp
  next
    case (Some g)
    with h switch_to_code_orig[of interp s v] assms(2) show ?thesis by simp
  qed
  from assms(3) have "run_code interp s v =
      (Inr request,
       s'\<lparr>source := None, code_greenlet := None, code_is_waiting := False,
          sigint_slot := h, orig_sigint_handler := None\<rparr>)"
  proof
    assume "request = PyStr ''done''"
    with run_code_Inr[OF assms(2)] h show ?thesis
      by (simp add: handle_request_done unload_code_def)
  next
    assume "request = PyStr ''unfinished''"
    with run_code_Inr[OF assms(2)] h show ?thesis
      by (simp add: handle_request_unfinished unload_code_def)
  qed
  with h orig show ?thesis by blast
qed

theorem run_code_finished_witness:
  "fst (run_code runs_quietly (loaded ''1 + 1'') PyNone) = Inr (PyStr ''done'') \<and>
   source (snd (run_code runs_quietly (loaded ''1 + 1'') PyNone)) = None \<and>
   code_greenlet (snd (run_code runs_quietly (loaded ''1 + 1'') PyNone)) = None \<and>
   \<not> code_is_waiting (snd (run_code runs_quietly (loaded ''1 + 1'') PyNone)) \<and>
   sigint_slot (snd (run_code runs_quietly (loaded ''1 + 1'') PyNone)) = default_int_handler \<and>
   orig_sigint_handler (snd (run_code runs_quietly (loaded ''1 + 1'') PyNone)) = None"
proof -
  obtain r s' where sw: "switch_to_code runs_quietly (loaded ''1 + 1'') PyNone = (r, s')"
    by (cases "switch_to_code runs_quietly (loaded ''1 + 1'') PyNone")
  have "fst (switch_to_code runs_quietly (loaded ''1 + 1'') PyNone) = Inr (PyStr ''done'')"
    by (simp add: scenario_defs op_defs)
  with sw have r: "r = Inr (PyStr ''done'')" by simp
  have g: "code_greenlet (loaded ''1 + 1'') = None" "sigint_slot (loaded ''1 + 1'') = default_int_handler"
    by (simp_all add: loaded_def init_def)
  from run_code_finished[OF reachable_loaded sw[unfolded r]] g
  show ?thesis by auto
qed

subsection \<open>C4: an unknown tag\<close>

text \<open>
  What the last branch of \<open>run_code\<close> does, for every tag it can get: it raises the error
  of line 116 and leaves the state the code greenlet left; the code greenlet is dropped for
  the tags \<open>done\<close>, \<open>unfinished\<close> and \<open>SystemExit\<close> and for no other.
\<close>

lemma run_code_unknown_tag:
  assumes "switch_to_code interp s v = (Inr request, s')"
    and "request \<notin> {PyStr ''wait'', PyStr ''refresh'', PyStr ''done'', PyStr ''unfinished'',
           PyStr ''SystemExit''}"
  shows "run_code interp s v = (Inl (not_a_valid_value request), s')"
    and "code_greenlet s' \<noteq> None"
proof -
  from handle_request_other[OF assms(2), of s'] run_code_Inr[OF assms(1)]
  show "run_code interp s v = (Inl (not_a_valid_value request), s')" by simp
  from switch_to_code_greenlet[of interp s v request] assms(1)
  show "code_greenlet s' \<noteq> None" by simp
qed

lemma run_code_drops_greenlet:
  assumes "switch_to_code interp s v = (Inr request, s')"
  shows "code_greenlet (snd (run_code interp s v)) = None \<longleftrightarrow>
           request \<in> {PyStr ''done'', PyStr ''unfinished'', PyStr ''SystemExit''}"
proof -
  from switch_to_code_greenlet[of interp s v request] assms
  have g: "code_greenlet s' \<noteq> None" by simp
  note rc = run_code_Inr[OF assms]
  consider "request = PyStr ''wait''" | "request = PyStr ''refresh''"
    | "request = PyStr ''done''" | "request = PyStr ''unfinished''"
    | "request = PyStr ''SystemExit''"
    | "request \<notin> {PyStr ''wait'', PyStr ''refresh'', PyStr ''done'', PyStr ''unfinished'',
         PyStr ''SystemExit''}"
    by blast
  then show ?thesis
  proof cases
    case 1
    with rc g show ?thesis by (simp add: handle_request_wait)
  next
    case 2
    with rc g show ?thesis by (simp add: handle_request_refresh)
  next
    case 3
    with rc show ?thesis
      by (cases "orig_sigint_handler s'") (simp_all add: handle_request_done unload_code_def)
  next
    case 4
    with rc show ?thesis
      by (cases "orig_sigint_handler s'") (simp_all add: handle_request_unfinished unload_code_def)
  next
    case 5
    with rc show ?thesis by (simp add: handle_request_SystemExit unload_code_def)
  next
    case 6
    from handle_request_other[OF 6, of s'] rc g 6 show ?thesis by auto
  qed
qed

text \<open>
  Claim C4 does not hold of the code.  On a tag it does not know, \<open>run_code\<close> raises, but
  unlike the branches for \<open>done\<close>, \<open>unfinished\<close> and \<open>SystemExit\<close> it does not call
  \<open>unload_code\<close>: the runner keeps its source and its code greenlet and still reports
  itself running, and from then on \<open>run_code\<close> and \<open>load_code\<close> both fail their
  assertions.  When the tag is a tuple, as after a \<^verbatim>\<open>switch()\<close> without argument, the error
  raised is the \<open>TypeError\<close> of the message formatting, and the runner is left the same way.
\<close>

theorem run_code_unknown_tag_keeps_greenlet:
  "fst (run_code switches_by_hand (loaded ''bogus()'') PyNone) = Inl (ValueError (PyStr ''bogus'')) \<and>
   code_greenlet (snd (run_code switches_by_hand (loaded ''bogus()'') PyNone)) \<noteq> None \<and>
   source (snd (run_code switches_by_hand (loaded ''bogus()'') PyNone)) = Some ''bogus()'' \<and>
   truthy (running (snd (run_code switches_by_hand (loaded ''bogus()'') PyNone))) \<and>
   fst (run_code switches_by_hand
          (snd (run_code switches_by_hand (loaded ''bogus()'') PyNone)) PyNone) =
     Inl AssertionError \<and>
   load_code ''1 + 1'' (snd (run_code switches_by_hand (loaded ''bogus()'') PyNone)) =
     Inl AssertionError \<and>
   fst (run_code switches_without_value (loaded ''bogus()'') PyNone) = Inl TypeError \<and>
   code_greenlet (snd (run_code switches_without_value (loaded ''bogus()'') PyNone)) \<noteq> None \<and>
   source (snd (run_code switches_without_value (loaded ''bogus()'') PyNone)) = Some ''bogus()''"
  by (simp add: scenario_defs op_defs running_def load_code_def)

subsection \<open>C3: the code exits\<close>

text \<open>
  Claim C3 does not hold of the code.  When the code greenlet hands back \<open>SystemExit\<close>,
  \<open>run_code\<close> unloads the code and raises \<open>SystemExitFromCodeThread\<close>, but unlike the
  branch for \<open>done\<close> and \<open>unfinished\<close> it does not put the saved handler back: the slot
  still holds the runner's own handler and the saved one is still stored.
\<close>

theorem run_code_SystemExit_keeps_handler:
  "fst (run_code exits (loaded ''exit()'') PyNone) = Inl SystemExitFromCodeThread \<and>
   source (snd (run_code exits (loaded ''exit()'') PyNone)) = None \<and>
   code_greenlet (snd (run_code exits (loaded ''exit()'') PyNone)) = None \<and>
   code_is_waiting (snd (run_code exits (loaded ''exit()'') PyNone)) = False \<and>
   sigint_slot (loaded ''exit()'') = default_int_handler \<and>
   sigint_slot (snd (run_code exits (loaded ''exit()'') PyNone)) = CodeRunner_sigint_handler \<and>
   orig_sigint_handler (snd (run_code exits (loaded ''exit()'') PyNone)) = Some default_int_handler"
  by (simp add: scenario_defs op_defs)

subsection \<open>Executions of sequenced and guarded code\<close>

lemma run_path_bind_Inr:
  "run_path c xs = Some (tr, Inr a) \<Longrightarrow>
   run_path (co_bind c f) (xs @ ys) = map_option (\<lambda>(tr', r). (tr @ tr', r)) (run_path (f a) ys)"
proof (induction c arbitrary: xs tr)
  case (Return b)
  then show ?case by (auto simp: option.map_ident split: if_splits)
next
  case (Raise e)
  then show ?case by (simp split: if_splits)
next
  case (Switch tag k)
  from Switch.prems obtain v xs' tr' where xs: "xs = Resumed v # xs'"
    and k: "run_path (k v) xs' = Some (tr', Inr a)" and tr: "tr = Yielded tag # tr'"
    by (auto split: list.splits stimulus.splits)
  from Switch.IH[of "k v" xs' tr'] k
  have "run_path (co_bind (k v) f) (xs' @ ys) =
          map_option (\<lambda>(tr'', r). (tr' @ tr'', r)) (run_path (f a) ys)" by simp
  with xs tr show ?case by (simp add: option.map_comp comp_def case_prod_unfold)
next
  case (Effect ev c)
  from Effect.prems obtain tr' where c: "run_path c xs = Some (tr', Inr a)"
    and tr: "tr = Called ev # tr'" by auto
  from Effect.IH[OF c] tr show ?case
    by (simp add: option.map_comp comp_def case_prod_unfold)
next
  case (Sigint k)
  from Sigint.prems obtain r xs' where xs: "xs = Signalled r # xs'"
    and k: "run_path (k r) xs' = Some (tr, Inr a)"
    by (auto split: list.splits stimulus.splits)
  from Sigint.IH[of "k r" xs' tr] k xs show ?case by simp
qed

lemma run_path_bind_Inl:
  "run_path c xs = Some (tr, Inl e) \<Longrightarrow> run_path (co_bind c f) xs = Some (tr, Inl e)"
proof (induction c arbitrary: xs tr)
  case (Switch tag k)
  from Switch.prems obtain v xs' tr' where xs: "xs = Resumed v # xs'"
    and k: "run_path (k v) xs' = Some (tr', Inl e)" and tr: "tr = Yielded tag # tr'"
    by (auto split: list.splits stimulus.splits)
  from Switch.IH[of "k v" xs' tr'] k xs tr show ?case by simp
next
  case (Effect ev c)
  from Effect.prems obtain tr' where c: "run_path c xs = Some (tr', Inl e)"
    and tr: "tr = Called ev # tr'" by auto
  from Effect.IH[OF c] tr show ?case by simp
next
  case (Sigint k)
  from Sigint.prems obtain r xs' where xs: "xs = Signalled r # xs'"
    and k: "run_path (k r) xs' = Some (tr, Inl e)"
    by (auto split: list.splits stimulus.splits)
  from Sigint.IH[of "k r" xs' tr] k xs show ?case by simp
qed (simp_all split: if_splits)

lemma run_path_try_except_leaf:
  assumes "\<And>e. run_path (h e) [] = Some ([], H e)" "\<And>a. run_path (f a) [] = Some ([], F a)"
  shows "run_path (try_except c h f) xs =
           map_option (\<lambda>(tr, r). (tr, case r of Inl e \<Rightarrow> H e | Inr a \<Rightarrow> F a)) (run_path c xs)"
proof (induction c arbitrary: xs)
  case (Return a)
  show ?case
  proof (cases xs)
    case Nil
    then show ?thesis by (simp add: assms)
  next
    case (Cons x xs')
    have "run_path (f a) (x # xs') = None"
      using assms(2)[of a] by (cases "f a") (auto split: if_splits list.splits stimulus.splits)
    with Cons show ?thesis by simp
  qed
next
  case (Raise e)
  show ?case
  proof (cases xs)
    case Nil
    then show ?thesis by (simp add: assms)
  next
    case (Cons x xs')
    have "run_path (h e) (x # xs') = None"
      using assms(1)[of e] by (cases "h e") (auto split: if_splits list.splits stimulus.splits)
    with Cons show ?thesis by simp
  qed
next
  case (Switch tag k)
  show ?case
  proof (cases xs)
    case Nil
    then show ?thesis by simp
  next
    case (Cons x xs')
    then show ?thesis
      by (cases x) (simp_all add: Switch.IH option.map_comp comp_def case_prod_unfold)
  qed
next
  case (Effect ev c)
  then show ?case by (simp add: option.map_comp comp_def case_prod_unfold)
next
  case (Sigint k)
  show ?case
  proof (cases xs)
    case Nil
    then show ?thesis by simp
  next
    case (Cons x xs')
    then show ?thesis by (cases x) (simp_all add: Sigint.IH)
  qed
qed

subsection \<open>C7: the function the code greenlet runs\<close>

text \<open>
  Claim C7.  Along every execution, \<open>blocking_run_code\<close> makes one call of
  \<open>runsource\<close>, on the loaded source, and then does what the interpreter does; it ends
  when the interpreter ends.  If the interpreter raises \<open>SystemExit\<close> the result is the tag
  \<open>SystemExit\<close> and nothing is raised; if the interpreter returns, the result is
  \<open>unfinished\<close> when it returned true and \<open>done\<close> when it returned false.  (Any other
  exception of the interpreter leaves the function as it is.)
\<close>

theorem blocking_run_code_outcome:
  "run_path (blocking_run_code interp src) xs =
     (case run_path (interp src) xs of
        None \<Rightarrow> None
      | Some (tr, r) \<Rightarrow>
          Some (Called (Runsource src) # tr,
                case r of
                  Inl e \<Rightarrow> if is_SystemExit e then Inr (PyStr ''SystemExit'') else Inl e
                | Inr unfinished \<Rightarrow> Inr (PyStr (if unfinished then ''unfinished'' else ''done''))))"
proof -
  have "run_path (try_except (interp src)
          (\<lambda>e. if is_SystemExit e then Return (PyStr ''SystemExit'') else Raise e)
          (\<lambda>unfinished. Return (if unfinished then PyStr ''unfinished'' else PyStr ''done''))) xs =
        map_option (\<lambda>(tr, r). (tr, case r of
             Inl e \<Rightarrow> if is_SystemExit e then Inr (PyStr ''SystemExit'') else Inl e
           | Inr unfinished \<Rightarrow> Inr (if unfinished then PyStr ''unfinished'' else PyStr ''done'')))
          (run_path (interp src) xs)"
    by (rule run_path_try_except_leaf) simp_all
  then show ?thesis
    by (cases "run_path (interp src) xs") (auto simp: blocking_run_code_def split: sum.splits)
qed

theorem blocking_run_code_outcome_witness:
  "run_path (blocking_run_code exits ''exit()'') [] =
     Some ([Called (Runsource ''exit()'')], Inr (PyStr ''SystemExit'')) \<and>
   run_path (blocking_run_code runs_quietly ''1 + 1'') [] =
     Some ([Called (Runsource ''1 + 1'')], Inr (PyStr ''done'')) \<and>
   run_path (blocking_run_code (\<lambda>src. Return True) ''if x:'') [] =
     Some ([Called (Runsource ''if x:'')], Inr (PyStr ''unfinished'')) \<and>
   run_path (blocking_run_code prints_result ''1 + 1'') [Resumed PyNone, Resumed PyNone] =
     Some ([Called (Runsource ''1 + 1''), Called (On_write ''2''), Yielded (PyStr ''refresh''),
            Called (On_write [CHR 0x0A]), Yielded (PyStr ''refresh'')], Inr (PyStr ''done''))"
proof -
  have 1: "run_path (exits ''exit()'') [] = Some ([], Inl SystemExit)"
    by (simp add: exits_def)
  have 2: "run_path (runs_quietly ''1 + 1'') [] = Some ([], Inr False)"
    by (simp add: runs_quietly_def)
  have 3: "run_path (prints_result ''1 + 1'') [Resumed PyNone, Resumed PyNone] =
     Some ([Called (On_write ''2''), Yielded (PyStr ''refresh''),
            Called (On_write [CHR 0x0A]), Yielded (PyStr ''refresh'')], Inr False)"
    by (simp add: prints_result_def fo_write_def stdout_def refresh_and_get_value_def)
  show ?thesis
    using blocking_run_code_outcome[of exits "''exit()''" "[]"]
      blocking_run_code_outcome[of runs_quietly "''1 + 1''" "[]"]
      blocking_run_code_outcome[of "\<lambda>src. Return True" "''if x:''" "[]"]
      blocking_run_code_outcome[of prints_result "''1 + 1''" "[Resumed PyNone, Resumed PyNone]"]
    by (simp add: 1 2 3)
qed

lemma run_path_refresh_and_get_value:
  "run_path refresh_and_get_value [] = None"
  "run_path refresh_and_get_value [Resumed SigintHappened] =
     Some ([Yielded (PyStr ''refresh'')], Inl KeyboardInterrupt)"
  "v \<noteq> SigintHappened \<Longrightarrow>
   run_path refresh_and_get_value [Resumed v] = Some ([Yielded (PyStr ''refresh'')], Inr v)"
  by (simp_all add: refresh_and_get_value_def)

lemma run_path_wait_and_get_value:
  "run_path wait_and_get_value [] = None"
  "run_path wait_and_get_value [Resumed SigintHappened] =
     Some ([Yielded (PyStr ''wait'')], Inl KeyboardInterrupt)"
  "v \<noteq> SigintHappened \<Longrightarrow>
   run_path wait_and_get_value [Resumed v] = Some ([Yielded (PyStr ''wait'')], Inr v)"
  by (simp_all add: wait_and_get_value_def)

subsection \<open>C9: FakeOutput\<close>

text \<open>
  Claim C9, as amended.  \<open>write\<close> first calls the sink with the data.  If the sink raises,
  so does \<open>write\<close>, without suspending.  If the sink returns, \<open>write\<close> suspends once with
  the tag \<open>refresh\<close>; resumed with \<open>SigintHappened\<close> it raises \<open>KeyboardInterrupt\<close>, and
  resumed with any other value it returns that value to its caller.  \<open>flush\<close> does
  nothing and \<open>isatty\<close> answers true.
\<close>

theorem fo_write_suspends_once:
  "(run_path (on_write fo data) xs = Some (tr, Inl e) \<longrightarrow>
      run_path (fo_write fo data) xs = Some (tr, Inl e)) \<and>
   (run_path (on_write fo data) xs = Some (tr, Inr r) \<longrightarrow>
      run_path (fo_write fo data) xs = None \<and>
      run_path (fo_write fo data) (xs @ [Resumed SigintHappened]) =
        Some (tr @ [Yielded (PyStr ''refresh'')], Inl KeyboardInterrupt) \<and>
      (\<forall>v. v \<noteq> SigintHappened \<longrightarrow>
         run_path (fo_write fo data) (xs @ [Resumed v]) =
           Some (tr @ [Yielded (PyStr ''refresh'')], Inr v))) \<and>
   flush fo = Return PyNone \<and> isatty fo = Return (PyBool True)"
proof -
  have "run_path (fo_write fo data) xs = Some (tr, Inl e)"
    if "run_path (on_write fo data) xs = Some (tr, Inl e)"
    using run_path_bind_Inl[OF that] by (simp add: fo_write_def)
  moreover have "run_path (fo_write fo data) xs = None \<and>
      run_path (fo_write fo data) (xs @ [Resumed SigintHappened]) =
        Some (tr @ [Yielded (PyStr ''refresh'')], Inl KeyboardInterrupt) \<and>
      (\<forall>v. v \<noteq> SigintHappened \<longrightarrow>
         run_path (fo_write fo data) (xs @ [Resumed v]) =
           Some (tr @ [Yielded (PyStr ''refresh'')], Inr v))"
    if "run_path (on_write fo data) xs = Some (tr, Inr r)"
  proof -
    note b = run_path_bind_Inr[OF that, of "\<lambda>_. refresh_and_get_value"]
    from b[of "[]"] have "run_path (fo_write fo data) xs = None"
      by (simp add: fo_write_def run_path_refresh_and_get_value)
    moreover from b[of "[Resumed SigintHappened]"]
    have "run_path (fo_write fo data) (xs @ [Resumed SigintHappened]) =
        Some (tr @ [Yielded (PyStr ''refresh'')], Inl KeyboardInterrupt)"
      by (simp add: fo_write_def run_path_refresh_and_get_value)
    moreover have "run_path (fo_write fo data) (xs @ [Resumed v]) =
           Some (tr @ [Yielded (PyStr ''refresh'')], Inr v)" if "v \<noteq> SigintHappened" for v
      using b[of "[Resumed v]"] that by (simp add: fo_write_def run_path_refresh_and_get_value)
    ultimately show ?thesis by blast
  qed
  ultimately show ?thesis by (simp add: flush_def isatty_def)
qed

theorem fo_write_suspends_once_witness:
  "run_path (fo_write stdout ''2'') [] = None \<and>
   run_path (fo_write stdout ''2'') [Resumed SigintHappened] =
     Some ([Called (On_write ''2''), Yielded (PyStr ''refresh'')], Inl KeyboardInterrupt) \<and>
   run_path (fo_write stdout ''2'') [Resumed PyNone] =
     Some ([Called (On_write ''2''), Yielded (PyStr ''refresh'')], Inr PyNone) \<and>
   run_path (fo_write \<lparr>on_write = (\<lambda>x. Raise KeyboardInterrupt)\<rparr> ''2'') [] =
     Some ([], Inl KeyboardInterrupt)"
proof -
  have 1: "run_path (on_write stdout ''2'') [] = Some ([Called (On_write ''2'')], Inr PyNone)"
    by (simp add: stdout_def)
  have 2: "run_path (on_write \<lparr>on_write = (\<lambda>x. Raise KeyboardInterrupt)\<rparr> ''2'') [] =
             Some ([], Inl KeyboardInterrupt)"
    by simp
  have 3: "PyNone \<noteq> SigintHappened" by simp
  from fo_write_suspends_once[of stdout "''2''" "[]" "[Called (On_write ''2'')]" KeyboardInterrupt PyNone]
    fo_write_suspends_once[of "\<lparr>on_write = (\<lambda>x. Raise KeyboardInterrupt)\<rparr>" "''2''" "[]" "[]"
      KeyboardInterrupt PyNone] 1 2 3
  show ?thesis by simp
qed

text \<open>
  The claim as it was stated has \<open>write\<close> discard the value it is resumed with.  The
  method returns it: resumed with different values, \<open>write\<close> gives its caller different
  results.
\<close>

theorem fo_write_counterexample:
  "run_path (fo_write stdout ''2'') [Resumed (PyStr ''abc'')] =
     Some ([Called (On_write ''2''), Yielded (PyStr ''refresh'')], Inr (PyStr ''abc'')) \<and>
   run_path (fo_write stdout ''2'') [Resumed (PyStr ''abc'')] \<noteq>
     run_path (fo_write stdout ''2'') [Resumed PyNone]"
  by (simp add: fo_write_def stdout_def refresh_and_get_value_def)

subsection \<open>C10: the property \<open>running\<close>\<close>

lemma truthy_running:
  "truthy (running s) \<longleftrightarrow>
     (\<exists>src. source s = Some src \<and> src \<noteq> []) \<and>
     (\<exists>g k. code_greenlet s = Some g \<and> gstate g = Suspended k)"
proof (cases "source s")
  case None
  then show ?thesis by (simp add: running_def)
next
  case (Some src)
  show ?thesis
  proof (cases "code_greenlet s")
    case None
    with Some show ?thesis by (simp add: running_def)
  next
    case g: (Some g)
    with Some show ?thesis by (cases "gstate g") (simp_all add: running_def)
  qed
qed

lemma not_running_loaded: "\<not> truthy (running (loaded src))"
  by (simp add: truthy_running loaded_def init_def)

lemma not_running_unloaded: "\<not> truthy (running (unload_code s))"
  by (simp add: truthy_running unload_code_def)

text \<open>
  Claim C10 does not hold of the code.  \<open>running\<close> is \<^verbatim>\<open>self.source and self.code_greenlet\<close>,
  which tests the source for truth and not against \<^verbatim>\<open>None\<close> as \<open>load_code\<close> and \<open>run_code\<close>
  do.  With the empty string loaded and the code greenlet started and suspended, the
  property is the empty string, which is falsy.
\<close>

theorem running_empty_source:
  "source (snd (run_code prints_result (loaded []) PyNone)) = Some [] \<and>
   truthy_greenlet (code_greenlet (snd (run_code prints_result (loaded []) PyNone))) \<and>
   code_is_waiting (snd (run_code prints_result (loaded []) PyNone)) \<and>
   running (snd (run_code prints_result (loaded []) PyNone)) = Source_value (Some []) \<and>
   \<not> truthy (running (snd (run_code prints_result (loaded []) PyNone)))"
  by (simp add: scenario_defs op_defs running_def)

subsection \<open>Signals while the code greenlet runs\<close>

lemma deliver_sigint_in_code:
  assumes "sigint_slot s = CodeRunner_sigint_handler"
    and "Some (getcurrent s) = map_option gid (code_greenlet s)"
  shows "deliver_sigint s = Inl KeyboardInterrupt"
  using assms by (simp add: deliver_sigint_def sigint_handler_def)

lemma resume_in_code:
  assumes "sigint_slot s = CodeRunner_sigint_handler"
    and "Some (getcurrent s) = map_option gid (code_greenlet s)"
  shows "sigint_happened (snd (resume c s)) = sigint_happened s"
  using assms
proof (induction c arbitrary: s)
  case (Effect ev c)
  from Effect.IH[of "s\<lparr>events := events s @ [ev]\<rparr>"] Effect.prems show ?case by simp
next
  case (Sigint k)
  from deliver_sigint_in_code[OF Sigint.prems] Sigint.IH[of "k (Some KeyboardInterrupt)" s]
    Sigint.prems
  show ?case by simp
qed (simp_all add: leave_def)

lemma handle_request_sigint_happened:
  "sigint_happened (snd (handle_request request s)) = sigint_happened s"
proof -
  consider "request = PyStr ''wait''" | "request = PyStr ''refresh''"
    | "request = PyStr ''done''" | "request = PyStr ''unfinished''"
    | "request = PyStr ''SystemExit''"
    | "request \<notin> {PyStr ''wait'', PyStr ''refresh'', PyStr ''done'', PyStr ''unfinished'',
         PyStr ''SystemExit''}"
    by blast
  then show ?thesis
  proof cases
    case 1
    then show ?thesis by (simp add: handle_request_wait)
  next
    case 2
    then show ?thesis by (simp add: handle_request_refresh)
  next
    case 3
    then show ?thesis
      by (cases "orig_sigint_handler s") (simp_all add: handle_request_done unload_code_def)
  next
    case 4
    then show ?thesis
      by (cases "orig_sigint_handler s") (simp_all add: handle_request_unfinished unload_code_def)
  next
    case 5
    then show ?thesis by (simp add: handle_request_SystemExit unload_code_def)
  next
    case 6
    from handle_request_other[OF 6, of s] show ?thesis by simp
  qed
qed

lemma run_code_sigint_happened:
  "sigint_happened (snd (run_code interp s v)) =
     sigint_happened (snd (switch_to_code interp s v))"
proof -
  obtain r s' where sw: "switch_to_code interp s v = (r, s')"
    by (cases "switch_to_code interp s v")
  then show ?thesis
    by (cases r) (simp_all add: run_code_def handle_request_sigint_happened)
qed

subsection \<open>C1: a signal recorded while the driver had control\<close>

text \<open>
  Claim C1.  When \<open>run_code\<close> resumes a suspended code greenlet while \<open>sigint_happened\<close>
  is set, the greenlet continues with \<open>SigintHappened\<close> whatever value the driver passed,
  and the flag is cleared: it is clear when the greenlet starts running and still clear
  when \<open>run_code\<close> is over.  \<open>wait_and_get_value\<close> and \<open>refresh_and_get_value\<close>, resumed
  with \<open>SigintHappened\<close>, raise \<open>KeyboardInterrupt\<close>; resumed with any other value they
  return it.
\<close>

theorem run_code_delivers_sigint:
  assumes "code_greenlet s = Some g" and "gstate g = Suspended k"
    and "code_is_waiting s" and "sigint_happened s"
  shows "switch_to_code interp s for_code =
           resume (k SigintHappened)
             (s\<lparr>code_is_waiting := False, sigint_slot := CodeRunner_sigint_handler,
                sigint_happened := False, getcurrent := gid g\<rparr>) \<and>
         \<not> sigint_happened (snd (run_code interp s for_code)) \<and>
         run_path wait_and_get_value [Resumed SigintHappened] =
           Some ([Yielded (PyStr ''wait'')], Inl KeyboardInterrupt) \<and>
         run_path refresh_and_get_value [Resumed SigintHappened] =
           Some ([Yielded (PyStr ''refresh'')], Inl KeyboardInterrupt) \<and>
         (\<forall>v. v \<noteq> SigintHappened \<longrightarrow>
            run_path wait_and_get_value [Resumed v] = Some ([Yielded (PyStr ''wait'')], Inr v) \<and>
            run_path refresh_and_get_value [Resumed v] =
              Some ([Yielded (PyStr ''refresh'')], Inr v))"
proof -
  let ?s = "s\<lparr>code_is_waiting := False, sigint_slot := CodeRunner_sigint_handler,
               sigint_happened := False, getcurrent := gid g\<rparr>"
  from assms have sw: "switch_to_code interp s for_code = resume (k SigintHappened) ?s"
    by (simp add: switch_to_code_def switch_def Let_def)
  have "sigint_happened (snd (resume (k SigintHappened) ?s)) = sigint_happened ?s"
    by (rule resume_in_code) (simp_all add: assms(1))
  with sw have "\<not> sigint_happened (snd (run_code interp s for_code))"
    by (simp add: run_code_sigint_happened)
  with sw show ?thesis
    by (simp add: run_path_wait_and_get_value run_path_refresh_and_get_value)
qed

theorem run_code_delivers_sigint_witness:
  "deliver_sigint waiting_for_input = Inr (waiting_for_input\<lparr>sigint_happened := True\<rparr>) \<and>
   \<not> sigint_happened
       (snd (run_code asks_input (waiting_for_input\<lparr>sigint_happened := True\<rparr>) (PyStr ''hello''))) \<and>
   fst (run_code asks_input (waiting_for_input\<lparr>sigint_happened := True\<rparr>) (PyStr ''hello'')) =
     Inr (PyStr ''done'') \<and>
   events (snd (run_code asks_input (waiting_for_input\<lparr>sigint_happened := True\<rparr>) (PyStr ''hello''))) =
     [Runsource ''raw_input()'', On_write ''KeyboardInterrupt''] \<and>
   events (snd (run_code asks_input waiting_for_input (PyStr ''hello''))) =
     [Runsource ''raw_input()'', On_write ''hello'']"
proof -
  let ?s = "waiting_for_input\<lparr>sigint_happened := True\<rparr>"
  have "truthy_greenlet (code_greenlet ?s)"
    by (simp add: scenario_defs op_defs)
  then obtain g k where g: "code_greenlet ?s = Some g" "gstate g = Suspended k"
    by (cases "code_greenlet ?s") (auto split: gstate.splits)
  have w: "code_is_waiting ?s" "sigint_happened ?s"
    by (simp_all add: scenario_defs op_defs)
  from run_code_delivers_sigint[OF g w, of asks_input "PyStr ''hello''"]
  have "\<not> sigint_happened (snd (run_code asks_input ?s (PyStr ''hello'')))" by blast
  moreover have "deliver_sigint waiting_for_input = Inr ?s"
    by (simp add: scenario_defs op_defs)
  moreover have "fst (run_code asks_input ?s (PyStr ''hello'')) = Inr (PyStr ''done'')"
    by (simp add: scenario_defs op_defs)
  moreover have "events (snd (run_code asks_input ?s (PyStr ''hello''))) =
     [Runsource ''raw_input()'', On_write ''KeyboardInterrupt'']"
    by (simp add: scenario_defs op_defs)
  moreover have "events (snd (run_code asks_input waiting_for_input (PyStr ''hello''))) =
     [Runsource ''raw_input()'', On_write ''hello'']"
    by (simp add: scenario_defs op_defs)
  ultimately show ?thesis by blast
qed

subsection \<open>C2: the SIGINT handler\<close>

lemma reachable_not_in_code:
  assumes "reachable s"
  shows "Some (getcurrent s) \<noteq> map_option gid (code_greenlet s)"
proof -
  from assms have "invar s" by (rule reachable_invar)
  then show ?thesis by (cases "code_greenlet s") (auto simp: invar_def)
qed

text \<open>
  Claim C2.  \<open>sigint_handler\<close> raises \<open>KeyboardInterrupt\<close> when the current greenlet is the
  code greenlet, and otherwise does not raise and sets \<open>sigint_happened\<close>, changing nothing
  else.  \<open>run_code\<close> installs the handler and makes the code greenlet current before the
  code runs, so a SIGINT that arrives while the code runs is raised in the code at that
  point; in every state in which the driver has control and the handler is installed, a
  SIGINT sets the flag.
\<close>

theorem sigint_handler_dispatch:
  "(Some (getcurrent s) = map_option gid (code_greenlet s) \<longrightarrow>
      sigint_handler s = Inl KeyboardInterrupt) \<and>
   (Some (getcurrent s) \<noteq> map_option gid (code_greenlet s) \<longrightarrow>
      sigint_handler s = Inr (s\<lparr>sigint_happened := True\<rparr>)) \<and>
   (sigint_slot s = CodeRunner_sigint_handler \<and>
    Some (getcurrent s) = map_option gid (code_greenlet s) \<longrightarrow>
      resume (Sigint k) s = resume (k (Some KeyboardInterrupt)) s) \<and>
   (code_greenlet s = None \<and> source s = Some src \<longrightarrow>
      (\<exists>s'. switch_to_code interp s v = resume (blocking_run_code interp src) s' \<and>
            sigint_slot s' = CodeRunner_sigint_handler \<and>
            Some (getcurrent s') = map_option gid (code_greenlet s'))) \<and>
   (code_greenlet s = Some g \<and> gstate g = Suspended k' \<and> code_is_waiting s \<longrightarrow>
      (\<exists>s' w. switch_to_code interp s v = resume (k' w) s' \<and>
            sigint_slot s' = CodeRunner_sigint_handler \<and>
            Some (getcurrent s') = map_option gid (code_greenlet s'))) \<and>
   (reachable s \<and> sigint_slot s = CodeRunner_sigint_handler \<longrightarrow>
      deliver_sigint s = Inr (s\<lparr>sigint_happened := True\<rparr>))"
proof -
  have 1: "sigint_handler s = Inl KeyboardInterrupt"
    if "Some (getcurrent s) = map_option gid (code_greenlet s)"
    using that by (simp add: sigint_handler_def)
  have 2: "sigint_handler s = Inr (s\<lparr>sigint_happened := True\<rparr>)"
    if "Some (getcurrent s) \<noteq> map_option gid (code_greenlet s)"
    using that by (simp add: sigint_handler_def)
  have 3: "resume (Sigint k) s = resume (k (Some KeyboardInterrupt)) s"
    if "sigint_slot s = CodeRunner_sigint_handler \<and>
        Some (getcurrent s) = map_option gid (code_greenlet s)"
    using that deliver_sigint_in_code[of s] by simp
  have 4: "\<exists>s'. switch_to_code interp s v = resume (blocking_run_code interp src) s' \<and>
            sigint_slot s' = CodeRunner_sigint_handler \<and>
            Some (getcurrent s') = map_option gid (code_greenlet s')"
    if "code_greenlet s = None \<and> source s = Some src"
  proof -
    let ?s' = "s\<lparr>code_greenlet :=
                   Some \<lparr>gid = next_gid s, gstate = Unstarted (blocking_run_code interp src)\<rparr>,
                 next_gid := Suc (next_gid s),
                 orig_sigint_handler := Some (sigint_slot s),
                 sigint_slot := CodeRunner_sigint_handler,
                 getcurrent := next_gid s\<rparr>"
    from that have "switch_to_code interp s v = resume (blocking_run_code interp src) ?s'"
      by (simp add: switch_to_code_def switch_def Let_def)
    moreover have "sigint_slot ?s' = CodeRunner_sigint_handler" by simp
    moreover have "Some (getcurrent ?s') = map_option gid (code_greenlet ?s')" by simp
    ultimately show ?thesis by blast
  qed
  have 5: "\<exists>s' w. switch_to_code interp s v = resume (k' w) s' \<and>
            sigint_slot s' = CodeRunner_sigint_handler \<and>
            Some (getcurrent s') = map_option gid (code_greenlet s')"
    if a: "code_greenlet s = Some g \<and> gstate g = Suspended k' \<and> code_is_waiting s"
  proof (cases "sigint_happened s")
    case True
    let ?s' = "s\<lparr>code_is_waiting := False, sigint_slot := CodeRunner_sigint_handler,
                 sigint_happened := False, getcurrent := gid g\<rparr>"
    from a True have "switch_to_code interp s v = resume (k' SigintHappened) ?s'"
      by (simp add: switch_to_code_def switch_def Let_def)
    moreover have "sigint_slot ?s' = CodeRunner_sigint_handler" by simp
    moreover have "Some (getcurrent ?s') = map_option gid (code_greenlet ?s')"
      using a by simp
    ultimately show ?thesis by blast
  next
    case False
    let ?s' = "s\<lparr>code_is_waiting := False, sigint_slot := CodeRunner_sigint_handler,
                 getcurrent := gid g\<rparr>"
    from a False have "switch_to_code interp s v = resume (k' v) ?s'"
      by (simp add: switch_to_code_def switch_def Let_def)
    moreover have "sigint_slot ?s' = CodeRunner_sigint_handler" by simp
    moreover have "Some (getcurrent ?s') = map_option gid (code_greenlet ?s')"
      using a by simp
    ultimately show ?thesis by blast
  qed
  have 6: "deliver_sigint s = Inr (s\<lparr>sigint_happened := True\<rparr>)"
    if "reachable s \<and> sigint_slot s = CodeRunner_sigint_handler"
    using that reachable_not_in_code[of s] by (simp add: deliver_sigint_def sigint_handler_def)
  from 1 2 3 4 5 6 show ?thesis by blast
qed

lemma reachable_waiting_for_input: "reachable waiting_for_input"
proof -
  have "run_code asks_input (loaded ''raw_input()'') PyNone =
          (fst (run_code asks_input (loaded ''raw_input()'') PyNone), waiting_for_input)"
    by (simp add: waiting_for_input_def)
  with reachable_loaded show ?thesis by (rule reachable_run)
qed

theorem sigint_handler_dispatch_witness:
  "reachable waiting_for_input \<and>
   sigint_slot waiting_for_input = CodeRunner_sigint_handler \<and>
   deliver_sigint waiting_for_input = Inr (waiting_for_input\<lparr>sigint_happened := True\<rparr>) \<and>
   map_option gid (code_greenlet waiting_for_input) = Some 1 \<and>
   sigint_handler (waiting_for_input\<lparr>getcurrent := 1\<rparr>) = Inl KeyboardInterrupt \<and>
   sigint_handler waiting_for_input = Inr (waiting_for_input\<lparr>sigint_happened := True\<rparr>) \<and>
   fst (run_code interrupted (loaded ''spin()'') PyNone) = Inr (PyStr ''done'') \<and>
   events (snd (run_code interrupted (loaded ''spin()'') PyNone)) =
     [Runsource ''spin()'', On_write ''KeyboardInterrupt''] \<and>
   \<not> sigint_happened (snd (run_code interrupted (loaded ''spin()'') PyNone))"
proof -
  have slot: "sigint_slot waiting_for_input = CodeRunner_sigint_handler"
    by (simp add: scenario_defs op_defs)
  have gid: "map_option gid (code_greenlet waiting_for_input) = Some 1"
    by (simp add: scenario_defs op_defs)
  have cur: "getcurrent waiting_for_input = 0"
    by (simp add: scenario_defs op_defs)
  note d = sigint_handler_dispatch[of waiting_for_input]
  from d reachable_waiting_for_input slot
  have 1: "deliver_sigint waiting_for_input = Inr (waiting_for_input\<lparr>sigint_happened := True\<rparr>)"
    by blast
  from d gid cur
  have 2: "sigint_handler waiting_for_input = Inr (waiting_for_input\<lparr>sigint_happened := True\<rparr>)"
    by simp
  from sigint_handler_dispatch[of "waiting_for_input\<lparr>getcurrent := 1\<rparr>"] gid
  have 3: "sigint_handler (waiting_for_input\<lparr>getcurrent := 1\<rparr>) = Inl KeyboardInterrupt"
    by simp
  have 4: "fst (run_code interrupted (loaded ''spin()'') PyNone) = Inr (PyStr ''done'')"
    "events (snd (run_code interrupted (loaded ''spin()'') PyNone)) =
       [Runsource ''spin()'', On_write ''KeyboardInterrupt'']"
    "\<not> sigint_happened (snd (run_code interrupted (loaded ''spin()'') PyNone))"
    by (simp_all add: scenario_defs op_defs)
  from reachable_waiting_for_input slot gid 1 2 3 4 show ?thesis by blast
qed

end
